theory Spec2Isabelle
  imports Main "HOL-Library.Sublist"
begin

section \<open>The two bridging headers, as they are on disk\<close>

text \<open>
  The repository consists of two files with the same name,
  \<^verbatim>\<open>Whisperer/Whisperer-Bridging-Header.h\<close> (the outer one, relative include paths) and
  \<^verbatim>\<open>Whisperer/whisperer/whisperer/Whisperer-Bridging-Header.h\<close> (the nested one, absolute
  include paths). Each is embedded as the exact character sequence of the file: a list of
  lines, every one followed by a line feed. The outer file ends with an empty line and its
  line feed; the last line of the nested file has no line feed.
\<close>

definition newline :: char where
  "newline = CHR 0x0A"

definition unlines :: "string list \<Rightarrow> string" where
  "unlines ls = concat (map (\<lambda>l. l @ [newline]) ls)"

definition facade_rel_text :: string where
  \<open>facade_rel_text = unlines
    [''//'',
     ''//  Whisperer-Bridging-Header.h'',
     ''//  Whisperer'',
     ''//'',
     ''//  Bridging header for whisper.cpp C library integration'',
     ''//'',
     '''',
     ''#ifndef Whisperer_Bridging_Header_h'',
     ''#define Whisperer_Bridging_Header_h'',
     '''',
     ''#include "../whisper.cpp/ggml/include/ggml.h"'',
     ''#include "../whisper.cpp/ggml/include/ggml-cpu.h"'',
     ''#include "../whisper.cpp/ggml/include/ggml-backend.h"'',
     ''#include "../whisper.cpp/include/whisper.h"'',
     '''',
     ''#endif /* Whisperer_Bridging_Header_h */'',
     '''']\<close>

definition facade_abs_text :: string where
  \<open>facade_abs_text = unlines
    [''//'',
     ''//  Whisperer-Bridging-Header.h'',
     ''//  Whisperer'',
     ''//'',
     ''//  Bridging header for whisper.cpp C library integration'',
     ''//'',
     '''',
     ''#ifndef Whisperer_Bridging_Header_h'',
     ''#define Whisperer_Bridging_Header_h'',
     '''',
     ''#include "/Users/alexanderi/Downloads/whisperer/whisper.cpp/ggml/include/ggml.h"'',
     ''#include "/Users/alexanderi/Downloads/whisperer/whisper.cpp/ggml/include/ggml-cpu.h"'',
     ''#include "/Users/alexanderi/Downloads/whisperer/whisper.cpp/ggml/include/ggml-backend.h"'',
     ''#include "/Users/alexanderi/Downloads/whisperer/whisper.cpp/include/whisper.h"'',
     '''']
    @ ''#endif /* Whisperer_Bridging_Header_h */''\<close>

section \<open>From characters to preprocessing directives\<close>

text \<open>
  A file is cut into lines at every line feed: a text with \<open>k\<close> line feeds has \<open>k + 1\<close>
  lines, the last one being what follows the last line feed (possibly nothing).
\<close>

fun split_on :: "char \<Rightarrow> string \<Rightarrow> string \<Rightarrow> string list" where
  "split_on c acc [] = [rev acc]"
| "split_on c acc (x # xs) =
     (if x = c then rev acc # split_on c [] xs else split_on c (x # acc) xs)"

definition lines_of :: "string \<Rightarrow> string list" where
  "lines_of t = split_on newline [] t"

definition line_feeds :: "string \<Rightarrow> nat" where
  "line_feeds t = length (filter (\<lambda>c. c = newline) t)"

text \<open>
  The directives of the C preprocessor that the model interprets. A line that is empty or a
  \<^verbatim>\<open>//\<close> comment is \<open>Blank\<close>; a line that is not a directive is \<open>Text\<close>: it is what reaches
  the compiler proper (declarations, definitions, statements). \<open>Include True p\<close> is
  \<^verbatim>\<open>#include "p"\<close>, \<open>Include False p\<close> is \<^verbatim>\<open>#include <p>\<close>. \<open>Other\<close> stands for the directives
  without effect on inclusion (\<^verbatim>\<open>#pragma\<close>, \<^verbatim>\<open>#line\<close>, ...), \<open>Bad\<close> for a malformed one.
\<close>

datatype directive =
    Ifdef string
  | Ifndef string
  | If string
  | Elif string
  | Else
  | Endif
  | Define string
  | Undef string
  | Include bool string
  | Other string
  | Bad string
  | Text string
  | Blank

definition is_blank :: "char \<Rightarrow> bool" where
  "is_blank c = (c = CHR '' '' \<or> c = CHR 0x09)"

definition ltrim :: "string \<Rightarrow> string" where
  "ltrim s = dropWhile is_blank s"

definition is_ident_char :: "char \<Rightarrow> bool" where
  "is_ident_char c =
     (c \<in> set ''abcdefghijklmnopqrstuvwxyzABCDEFGHIJKLMNOPQRSTUVWXYZ0123456789_'')"

definition ident_of :: "string \<Rightarrow> string" where
  "ident_of s = takeWhile is_ident_char s"

text \<open>The operand of \<^verbatim>\<open>#include\<close>: a name between double quotes or between angle brackets.\<close>

fun header_name :: "string \<Rightarrow> (bool \<times> string) option" where
  "header_name [] = None"
| "header_name (c # r) =
     (if c = CHR 0x22 then
        (if CHR 0x22 \<in> set r then Some (True, takeWhile (\<lambda>x. x \<noteq> CHR 0x22) r) else None)
      else if c = CHR ''<'' then
        (if CHR ''>'' \<in> set r then Some (False, takeWhile (\<lambda>x. x \<noteq> CHR ''>'') r) else None)
      else None)"

definition directive_of :: "string \<Rightarrow> directive" where
  "directive_of l =
     (let t = ltrim l in
      if t = [] \<or> take 2 t = ''//'' then Blank
      else if hd t \<noteq> CHR ''#'' then Text l
      else
        let b = ltrim (tl t);
            k = ident_of b;
            a = ltrim (dropWhile is_ident_char b)
        in if k = ''ifndef'' then Ifndef (ident_of a)
           else if k = ''ifdef'' then Ifdef (ident_of a)
           else if k = ''if'' then If a
           else if k = ''elif'' then Elif a
           else if k = ''else'' then Else
           else if k = ''endif'' then Endif
           else if k = ''define'' then Define (ident_of a)
           else if k = ''undef'' then Undef (ident_of a)
           else if k = ''include'' then
             (case header_name a of
                Some (q, p) \<Rightarrow> Include q p
              | None \<Rightarrow> Bad l)
           else if k = [] \<and> b = [] then Blank
           else if k = ''pragma'' \<or> k = ''line'' \<or> k = ''warning'' then Other l
           else Bad l)"

definition directives_of :: "string \<Rightarrow> directive list" where
  "directives_of t = map directive_of (lines_of t)"

text \<open>
  The two headers as directive lists: what the preprocessor sees of them. Only these two
  files are read from their characters.
\<close>

definition facade_rel :: "directive list" where
  "facade_rel = directives_of facade_rel_text"

definition facade_abs :: "directive list" where
  "facade_abs = directives_of facade_abs_text"

text \<open>
  The names that occur in the two files: the guard macro, the prefix of the include paths
  in either file, and what follows the prefix in the four includes. That the files consist
  of these names is computed from their characters below (\<open>facade_rel_eq\<close>,
  \<open>facade_abs_eq\<close>).
\<close>

definition guard :: string where
  "guard = ''Whisperer_Bridging_Header_h''"

definition rel_prefix :: string where
  "rel_prefix = ''../whisper.cpp/''"

definition abs_prefix :: string where
  "abs_prefix = ''/Users/alexanderi/Downloads/whisperer/whisper.cpp/''"

definition header_tails :: "string list" where
  "header_tails =
     [''ggml/include/ggml.h'', ''ggml/include/ggml-cpu.h'',
      ''ggml/include/ggml-backend.h'', ''include/whisper.h'']"

definition header_steps :: "string list list" where
  "header_steps = map (split_on CHR ''/'' []) header_tails"

definition rel_paths :: "string list" where
  "rel_paths = map (\<lambda>t. rel_prefix @ t) header_tails"

definition abs_paths :: "string list" where
  "abs_paths = map (\<lambda>t. abs_prefix @ t) header_tails"

section \<open>Files and the resolution of an include\<close>

text \<open>
  The build environment is a parameter of the model: a file system (an association list
  from paths, as lists of components from the root, to directories and files), the list of
  include search directories given to the compiler, and the truth of the conditions of
  \<^verbatim>\<open>#if\<close> and \<^verbatim>\<open>#elif\<close>, which the model does not interpret. The external headers are
  files of this file system, already cut into directives; nothing is assumed about their
  contents unless a theorem says so.
\<close>

datatype node = Dir | File "directive list"

type_synonym path = "string list"

type_synonym fsys = "(path \<times> node) list"

record env =
  files :: fsys
  search :: "path list"
  holds :: "string \<Rightarrow> string set \<Rightarrow> bool"

text \<open>
  Walking a path name from a directory, component by component, as the operating system
  does: \<^verbatim>\<open>..\<close> is the parent (the root is its own parent), every other component must
  exist, and every component but the last must be a directory.
\<close>

fun walk :: "fsys \<Rightarrow> path \<Rightarrow> string list \<Rightarrow> path option" where
  "walk fs cur [] = Some cur"
| "walk fs cur (c # cs) =
     (if c = [] \<or> c = ''.'' then walk fs cur cs
      else if c = ''..'' then walk fs (butlast cur) cs
      else (case map_of fs (cur @ [c]) of
              None \<Rightarrow> None
            | Some Dir \<Rightarrow> walk fs (cur @ [c]) cs
            | Some (File b) \<Rightarrow> if cs = [] then Some (cur @ [c]) else None))"

definition open_at :: "fsys \<Rightarrow> path \<Rightarrow> string list \<Rightarrow> (path \<times> directive list) option" where
  "open_at fs base cs =
     (case walk fs base cs of
        None \<Rightarrow> None
      | Some loc \<Rightarrow> (case map_of fs loc of Some (File b) \<Rightarrow> Some (loc, b) | _ \<Rightarrow> None))"

fun first_hit :: "'a option list \<Rightarrow> 'a option" where
  "first_hit [] = None"
| "first_hit (None # xs) = first_hit xs"
| "first_hit (Some y # xs) = Some y"

text \<open>
  An absolute name is opened as it is. A relative name in double quotes is looked for in
  the directory of the including file first, then in the search directories in order; a
  name in angle brackets in the search directories only.
\<close>

definition locate :: "env \<Rightarrow> path \<Rightarrow> bool \<Rightarrow> string \<Rightarrow> (path \<times> directive list) option" where
  "locate E d quoted p =
     (let cs = split_on CHR ''/'' [] p in
      if take 1 p = ''/'' then open_at (files E) [] cs
      else first_hit (map (\<lambda>b. open_at (files E) b cs)
                          ((if quoted then [d] else []) @ search E)))"

section \<open>Preprocessing\<close>

text \<open>
  The state of a translation unit during preprocessing: the macros defined so far and the
  text lines passed on to the compiler so far. A macro is defined or not: the bodies of
  macros and their expansion in text lines are not modelled, and neither are the pragmas.
  The errors are those of inclusion and of conditionals: a file that is not found, the limit
  of include nesting reached, an \<^verbatim>\<open>#else\<close>, \<^verbatim>\<open>#elif\<close> or \<^verbatim>\<open>#endif\<close> without its \<^verbatim>\<open>#if\<close>, a
  conditional left open at the end of its file, a malformed directive.
\<close>

record pp_state =
  defined :: "string set"
  out :: "string list"

datatype pp_error =
    Not_Found string
  | Too_Deep
  | Stray
  | Unterminated
  | Malformed string

text \<open>
  One frame per open conditional: \<open>Taking\<close> when its current group is being processed,
  \<open>Waiting\<close> when no group of it has been taken yet, \<open>Finished\<close> when one has, or when the
  whole conditional lies in a skipped group.
\<close>

datatype frame = Taking | Waiting | Finished

definition live :: "frame list \<Rightarrow> bool" where
  "live fr = (case fr of [] \<Rightarrow> True | f # _ \<Rightarrow> f = Taking)"

definition enter :: "frame list \<Rightarrow> bool \<Rightarrow> frame" where
  "enter fr c = (if \<not> live fr then Finished else if c then Taking else Waiting)"

definition alternative :: "frame \<Rightarrow> bool \<Rightarrow> frame" where
  "alternative f c =
     (case f of Taking \<Rightarrow> Finished
              | Waiting \<Rightarrow> (if c then Taking else Waiting)
              | Finished \<Rightarrow> Finished)"

text \<open>
  \<open>run n E d xs fr st\<close> preprocesses the directives \<open>xs\<close> of a file in directory \<open>d\<close>, with
  \<open>n\<close> further levels of include nesting allowed. An include in a live group fails when the
  nesting limit is reached or the file is not found; otherwise the included file is
  preprocessed, with conditionals of its own, and the including file goes on from the state
  it leaves. A file must close the conditionals it opens.
\<close>

fun run :: "nat \<Rightarrow> env \<Rightarrow> path \<Rightarrow> directive list \<Rightarrow> frame list \<Rightarrow> pp_state
            \<Rightarrow> pp_error + pp_state" where
  "run n E d [] fr st = (if fr = [] then Inr st else Inl Unterminated)"
| "run n E d (Ifdef m # xs) fr st = run n E d xs (enter fr (m \<in> defined st) # fr) st"
| "run n E d (Ifndef m # xs) fr st = run n E d xs (enter fr (m \<notin> defined st) # fr) st"
| "run n E d (If c # xs) fr st = run n E d xs (enter fr (holds E c (defined st)) # fr) st"
| "run n E d (Elif c # xs) fr st =
     (case fr of
        [] \<Rightarrow> Inl Stray
      | f # fr' \<Rightarrow> run n E d xs (alternative f (holds E c (defined st)) # fr') st)"
| "run n E d (Else # xs) fr st =
     (case fr of
        [] \<Rightarrow> Inl Stray
      | f # fr' \<Rightarrow> run n E d xs (alternative f True # fr') st)"
| "run n E d (Endif # xs) fr st =
     (case fr of
        [] \<Rightarrow> Inl Stray
      | f # fr' \<Rightarrow> run n E d xs fr' st)"
| "run n E d (Define m # xs) fr st =
     run n E d xs fr (if live fr then st\<lparr>defined := insert m (defined st)\<rparr> else st)"
| "run n E d (Undef m # xs) fr st =
     run n E d xs fr (if live fr then st\<lparr>defined := defined st - {m}\<rparr> else st)"
| "run n E d (Include q p # xs) fr st =
     (if \<not> live fr then run n E d xs fr st
      else (case n of
              0 \<Rightarrow> Inl Too_Deep
            | Suc k \<Rightarrow>
                (case locate E d q p of
                   None \<Rightarrow> Inl (Not_Found p)
                 | Some (loc, body) \<Rightarrow>
                     (case run k E (butlast loc) body [] st of
                        Inl e \<Rightarrow> Inl e
                      | Inr st' \<Rightarrow> run n E d xs fr st'))))"
| "run n E d (Other t # xs) fr st = run n E d xs fr st"
| "run n E d (Bad t # xs) fr st = (if live fr then Inl (Malformed t) else run n E d xs fr st)"
| "run n E d (Text t # xs) fr st =
     run n E d xs fr (if live fr then st\<lparr>out := out st @ [t]\<rparr> else st)"
| "run n E d (Blank # xs) fr st = run n E d xs fr st"

text \<open>A translation unit starts with no macro defined and nothing passed on.\<close>

definition start :: pp_state where
  "start = \<lparr>defined = {}, out = []\<rparr>"

section \<open>Notions used to state the properties\<close>

text \<open>The includes of a file, in order, and the last component of a path name.\<close>

fun includes_of :: "directive list \<Rightarrow> (bool \<times> string) list" where
  "includes_of [] = []"
| "includes_of (Include q p # xs) = (q, p) # includes_of xs"
| "includes_of (x # xs) = includes_of xs"

definition base_name :: "string \<Rightarrow> string" where
  "base_name p = last (split_on CHR ''/'' [] p)"

text \<open>
  The directives by which a file contributes something of its own: a macro defined or
  removed, a line passed on to the compiler, a pragma, a malformed directive. Conditionals,
  includes and blank lines contribute nothing by themselves.
\<close>

fun own :: "directive \<Rightarrow> bool" where
  "own (Define m) = True"
| "own (Undef m) = True"
| "own (Text t) = True"
| "own (Other t) = True"
| "own (Bad t) = True"
| "own x = False"

text \<open>
  Respelling an include line of the outer header: the relative prefix is replaced by the
  absolute one, every other line is left as it is.
\<close>

definition respell_line :: "string \<Rightarrow> string" where
  \<open>respell_line l =
     (let h = ''#include "'' @ rel_prefix in
      if take (length h) l = h then ''#include "'' @ abs_prefix @ drop (length h) l else l)\<close>

text \<open>No file of the environment removes the macro \<open>m\<close>.\<close>

definition no_undef :: "env \<Rightarrow> string \<Rightarrow> bool" where
  "no_undef E m =
     list_all (\<lambda>nd. case nd of Dir \<Rightarrow> True | File b \<Rightarrow> Undef m \<notin> set b) (map snd (files E))"

text \<open>The environment in which the file at \<open>loc\<close> is replaced by an empty file.\<close>

definition emptied :: "env \<Rightarrow> path \<Rightarrow> env" where
  "emptied E loc = E\<lparr>files := (loc, File []) # files E\<rparr>"

text \<open>
  The directory the nested header names, and the layout both headers expect below a
  directory \<open>W\<close>: the three ggml headers in \<^verbatim>\<open>W/ggml/include\<close> and \<^verbatim>\<open>whisper.h\<close> in
  \<^verbatim>\<open>W/include\<close>.
\<close>

definition author_dir :: path where
  "author_dir = [''Users'', ''alexanderi'', ''Downloads'', ''whisperer'', ''whisper.cpp'']"





section \<open>Example build environments\<close>

text \<open>
  Small environments on which the theorems are instantiated. \<open>library W g\<close> is a library
  checkout in directory \<open>W\<close> whose four headers hold one declaration each, \<open>g\<close> being put in
  front of \<^verbatim>\<open>ggml.h\<close>; \<open>project P\<close> is the repository's directory \<^verbatim>\<open>Whisperer\<close> at \<open>P\<close>, with
  the two headers where the repository has them; \<open>dirs_to p\<close> makes the directories from the
  root down to \<open>p\<close>.
\<close>

definition header_file :: string where
  "header_file = ''Whisperer-Bridging-Header.h''"

definition nested_header_file :: string where
  "nested_header_file = ''whisperer/whisperer/Whisperer-Bridging-Header.h''"

definition sample_lines :: "string list" where
  "sample_lines =
     [''struct ggml_tensor;'', ''void ggml_cpu_init(void);'',
      ''struct ggml_backend;'', ''struct whisper_context;'']"

definition library :: "path \<Rightarrow> directive list \<Rightarrow> fsys" where
  "library W g =
     [(W, Dir), (W @ [''ggml''], Dir), (W @ [''ggml'', ''include''], Dir),
      (W @ [''ggml'', ''include'', ''ggml.h''], File (g @ [Text ''struct ggml_tensor;''])),
      (W @ [''ggml'', ''include'', ''ggml-cpu.h''], File [Text ''void ggml_cpu_init(void);'']),
      (W @ [''ggml'', ''include'', ''ggml-backend.h''], File [Text ''struct ggml_backend;'']),
      (W @ [''include''], Dir),
      (W @ [''include'', ''whisper.h''], File [Text ''struct whisper_context;''])]"

definition project :: "path \<Rightarrow> fsys" where
  "project P =
     [(P, Dir), (P @ [header_file], File facade_rel),
      (P @ [''whisperer''], Dir), (P @ [''whisperer'', ''whisperer''], Dir),
      (P @ [''whisperer'', ''whisperer'', header_file], File facade_abs)]"

definition dirs_to :: "path \<Rightarrow> fsys" where
  "dirs_to p = map (\<lambda>q. (q, Dir)) (tl (prefixes p))"

text \<open>
  A machine other than the author's: the repository directory and the library side by side
  in \<^verbatim>\<open>/home/dev\<close>, nothing under \<^verbatim>\<open>/Users\<close>.
\<close>

definition dev_home :: path where
  "dev_home = [''home'', ''dev'']"

definition other_machine :: "directive list \<Rightarrow> env" where
  "other_machine g =
     \<lparr>files = dirs_to dev_home @ project (dev_home @ [''Whisperer'']) @
              library (dev_home @ [''whisper.cpp'']) g,
      search = [],
      holds = (\<lambda>c ms. False)\<rparr>"

text \<open>
  A machine with the library at the path the nested header names, and the repository
  directory in \<^verbatim>\<open>/Users/alexanderi/Desktop\<close>, where it has no library beside it.
\<close>

definition desktop :: path where
  "desktop = [''Users'', ''alexanderi'', ''Desktop'']"

definition moved_machine :: env where
  "moved_machine =
     \<lparr>files = dirs_to (butlast author_dir) @ library author_dir [] @
              [(desktop, Dir)] @ project (desktop @ [''Whisperer'']),
      search = [],
      holds = (\<lambda>c ms. False)\<rparr>"

text \<open>
  The layout the nested header was written for: the library at the path it names, with the
  repository directory beside it, so that the names of both headers resolve.
\<close>

definition author_machine :: env where
  "author_machine =
     \<lparr>files = dirs_to (butlast author_dir) @ library author_dir [] @
              project (butlast author_dir @ [''Whisperer'']),
      search = [],
      holds = (\<lambda>c ms. False)\<rparr>"

text \<open>A machine with nothing but the repository directory, in \<^verbatim>\<open>/home/dev\<close>.\<close>

definition bare_machine :: env where
  "bare_machine =
     \<lparr>files = dirs_to dev_home @ project (dev_home @ [''Whisperer'']),
      search = [],
      holds = (\<lambda>c ms. False)\<rparr>"

section \<open>What the two headers consist of\<close>

text \<open>
  The lines and the directives of the two files, computed from their characters. Both files
  are seven comment or empty lines, the test and the definition of the guard macro, four
  includes in double quotes, and the closing \<^verbatim>\<open>#endif\<close>.
\<close>

lemma lines_of_facade_rel_text:
  \<open>lines_of facade_rel_text =
    [''//'',
     ''//  Whisperer-Bridging-Header.h'',
     ''//  Whisperer'',
     ''//'',
     ''//  Bridging header for whisper.cpp C library integration'',
     ''//'',
     '''',
     ''#ifndef Whisperer_Bridging_Header_h'',
     ''#define Whisperer_Bridging_Header_h'',
     '''',
     ''#include "../whisper.cpp/ggml/include/ggml.h"'',
     ''#include "../whisper.cpp/ggml/include/ggml-cpu.h"'',
     ''#include "../whisper.cpp/ggml/include/ggml-backend.h"'',
     ''#include "../whisper.cpp/include/whisper.h"'',
     '''',
     ''#endif /* Whisperer_Bridging_Header_h */'',
     '''',
     '''']\<close>
  by code_simp

lemma facade_rel_eq:
  "facade_rel =
     replicate 7 Blank @ [Ifndef guard, Define guard, Blank] @
     map (Include True) rel_paths @ [Blank, Endif, Blank, Blank]"
  by code_simp

lemma facade_abs_eq:
  "facade_abs =
     replicate 7 Blank @ [Ifndef guard, Define guard, Blank] @
     map (Include True) abs_paths @ [Blank, Endif]"
  by code_simp

lemma includes_of_map: "includes_of (map (Include q) ps) = map (Pair q) ps"
  by (induction ps) simp_all

lemma includes_of_append: "includes_of (xs @ ys) = includes_of xs @ includes_of ys"
  by (induction xs rule: includes_of.induct) simp_all

lemma includes_of_facades:
  "includes_of facade_rel = map (Pair True) rel_paths"
  "includes_of facade_abs = map (Pair True) abs_paths"
  by (simp_all add: facade_rel_eq facade_abs_eq includes_of_map includes_of_append
                   eval_nat_numeral)

lemma base_names:
  "map base_name header_tails = [''ggml.h'', ''ggml-cpu.h'', ''ggml-backend.h'', ''whisper.h'']"
  by code_simp

lemma base_names_rel:
  "map base_name rel_paths = [''ggml.h'', ''ggml-cpu.h'', ''ggml-backend.h'', ''whisper.h'']"
  by code_simp

lemma base_names_abs:
  "map base_name abs_paths = [''ggml.h'', ''ggml-cpu.h'', ''ggml-backend.h'', ''whisper.h'']"
  by code_simp

lemma paths_as_four:
  "rel_paths = [rel_paths ! 0, rel_paths ! 1, rel_paths ! 2, rel_paths ! 3]"
  "abs_paths = [abs_paths ! 0, abs_paths ! 1, abs_paths ! 2, abs_paths ! 3]"
  by (simp_all add: rel_paths_def abs_paths_def header_tails_def)


lemma own_facades:
  "filter own facade_rel = [Define guard]"
  "filter own facade_abs = [Define guard]"
  by (simp_all add: facade_rel_eq facade_abs_eq eval_nat_numeral)

lemma no_text_facades:
  "filter (\<lambda>x. case x of Text t \<Rightarrow> True | Bad t \<Rightarrow> True | _ \<Rightarrow> False) facade_rel = []"
  "filter (\<lambda>x. case x of Text t \<Rightarrow> True | Bad t \<Rightarrow> True | _ \<Rightarrow> False) facade_abs = []"
  by (simp_all add: facade_rel_eq facade_abs_eq eval_nat_numeral)

lemma define_before_includes:
  "includes_of (takeWhile (\<lambda>x. x \<noteq> Define guard) facade_rel) = []"
  "includes_of (takeWhile (\<lambda>x. x \<noteq> Define guard) facade_abs) = []"
  "Define guard \<in> set facade_rel" "Define guard \<in> set facade_abs"
  by (simp_all add: facade_rel_eq facade_abs_eq eval_nat_numeral)

section \<open>Basic facts about preprocessing\<close>

lemma live_Nil: "live []"
  by (simp add: live_def)

lemma live_Cons: "live (f # fr) = (f = Taking)"
  by (simp add: live_def)

lemma run_blanks: "run n E d (replicate k Blank @ xs) fr st = run n E d xs fr st"
  by (induction k) simp_all

lemma run_one:
  "run (Suc n) E d [Include q s] [] st =
     (case locate E d q s of
        None \<Rightarrow> Inl (Not_Found s)
      | Some (loc, body) \<Rightarrow> run n E (butlast loc) body [] st)"
  by (simp add: live_Nil split: option.split sum.split)

lemma run_incs_skipped:
  "\<not> live fr \<Longrightarrow> run n E d (map (Include q) ps @ rest) fr st = run n E d rest fr st"
  by (induction ps) simp_all

lemma run_incs_then:
  "live fr \<Longrightarrow>
   run n E d (map (Include q) ps @ rest) fr st =
     (case run n E d (map (Include q) ps) [] st of
        Inl e \<Rightarrow> Inl e
      | Inr st' \<Rightarrow> run n E d rest fr st')"
proof (induction ps arbitrary: st)
  case Nil
  then show ?case by simp
next
  case (Cons p ps)
  then show ?case
    by (cases n) (simp_all add: live_Nil split: option.split sum.split)
qed

lemma run_two:
  "run n E d [Include q s, Include q' s'] [] st =
     (case run n E d [Include q s] [] st of
        Inl e \<Rightarrow> Inl e
      | Inr st' \<Rightarrow> run n E d [Include q' s'] [] st')"
  by (cases n) (simp_all add: live_Nil split: option.split sum.split)

lemma run_cons_include:
  "run n E d (Include q p # rest) [] st =
     (case run n E d [Include q p] [] st of
        Inl e \<Rightarrow> Inl e
      | Inr s \<Rightarrow> run n E d rest [] s)"
  by (cases n) (simp_all add: live_Nil split: option.split sum.split)

lemma run_includes_limit: "ps \<noteq> [] \<Longrightarrow> run 0 E d (map (Include q) ps) [] st = Inl Too_Deep"
  by (cases ps) (simp_all add: live_Nil)

text \<open>
  A file of the shape of the two headers: skipped as a whole when the guard is defined;
  otherwise the guard is defined and the includes are processed, and nothing else happens.
\<close>

lemma run_facade_shape:
  "run n E d (replicate 7 Blank @ [Ifndef g, Define g, Blank] @
              map (Include True) ps @ Blank # Endif # replicate k Blank) [] st =
     (if g \<in> defined st then Inr st
      else run n E d (map (Include True) ps) [] (st\<lparr>defined := insert g (defined st)\<rparr>))"
proof (cases "g \<in> defined st")
  case True
  then show ?thesis
    by (simp add: run_blanks run_incs_skipped live_Nil live_Cons enter_def
                  run_blanks [where xs = "[]", simplified])
next
  case False
  then show ?thesis
    by (simp add: run_blanks run_incs_then live_Nil live_Cons enter_def
                  run_blanks [where xs = "[]", simplified]
             split: sum.split)
qed

lemma run_facade_rel:
  "run n E d facade_rel [] st =
     (if guard \<in> defined st then Inr st
      else run n E d (map (Include True) rel_paths) []
             (st\<lparr>defined := insert guard (defined st)\<rparr>))"
  using run_facade_shape [of n E d guard rel_paths 2 st]
  by (simp add: facade_rel_eq numeral_2_eq_2)

lemma run_facade_abs:
  "run n E d facade_abs [] st =
     (if guard \<in> defined st then Inr st
      else run n E d (map (Include True) abs_paths) []
             (st\<lparr>defined := insert guard (defined st)\<rparr>))"
  using run_facade_shape [of n E d guard abs_paths 0 st]
  by (simp add: facade_abs_eq)


lemma facade_skipped:
  "F = facade_rel \<or> F = facade_abs \<Longrightarrow> guard \<in> defined st \<Longrightarrow> run n E d F [] st = Inr st"
  by (auto simp: run_facade_rel run_facade_abs)

subsection \<open>A located file is a file of the environment\<close>

lemma first_hit_in: "first_hit xs = Some y \<Longrightarrow> Some y \<in> set xs"
  by (induction xs rule: first_hit.induct) auto

lemma open_at_in: "open_at fs base cs = Some (loc, b) \<Longrightarrow> map_of fs loc = Some (File b)"
  by (auto simp: open_at_def split: option.splits node.splits)

lemma locate_in: "locate E d q p = Some (loc, b) \<Longrightarrow> map_of (files E) loc = Some (File b)"
  by (auto simp: locate_def Let_def dest!: first_hit_in dest: open_at_in open_at_in [OF sym]
           split: if_splits)

lemma no_undef_file:
  "no_undef E m \<Longrightarrow> map_of (files E) loc = Some (File b) \<Longrightarrow> Undef m \<notin> set b"
  by (drule map_of_SomeD) (auto simp: no_undef_def list_all_iff)

lemma no_undef_body:
  "no_undef E m \<Longrightarrow> locate E d q p = Some (loc, b) \<Longrightarrow> Undef m \<notin> set b"
  by (drule locate_in) (rule no_undef_file)

subsection \<open>A macro that no file removes stays defined\<close>

lemma keep_defined:
  "no_undef E m \<Longrightarrow> Undef m \<notin> set xs \<Longrightarrow> m \<in> defined st \<Longrightarrow>
   run n E d xs fr st = Inr st' \<Longrightarrow> m \<in> defined st'"
proof (induction n E d xs fr st arbitrary: st' rule: run.induct)
  case (10 n E d q p xs fr st)
  show ?case
  proof (cases "live fr")
    case False
    with 10 show ?thesis by simp
  next
    case True
    with "10.prems" obtain k loc body st1 where
      n: "n = Suc k" and loc: "locate E d q p = Some (loc, body)"
      and r1: "run k E (butlast loc) body [] st = Inr st1"
      and r2: "run n E d xs fr st1 = Inr st'"
      by (auto split: nat.splits option.splits sum.splits)
    from no_undef_body [OF "10.prems"(1) loc] have "Undef m \<notin> set body" .
    with "10.IH"(2) [OF _ n loc refl] True r1 "10.prems" have "m \<in> defined st1"
      by simp
    with "10.IH"(3) [OF _ n loc refl r1] True r2 "10.prems" show ?thesis
      by simp
  qed
qed (auto split: list.splits if_splits)


subsection \<open>The lines passed on are never taken back\<close>

lemma out_grows: "run n E d xs fr st = Inr st' \<Longrightarrow> prefix (out st) (out st')"
proof (induction n E d xs fr st arbitrary: st' rule: run.induct)
  case (10 n E d q p xs fr st)
  show ?case
  proof (cases "live fr")
    case False
    with 10 show ?thesis by simp
  next
    case True
    with "10.prems" obtain k loc body st1 where
      n: "n = Suc k" and loc: "locate E d q p = Some (loc, body)"
      and r1: "run k E (butlast loc) body [] st = Inr st1"
      and r2: "run n E d xs fr st1 = Inr st'"
      by (auto split: nat.splits option.splits sum.splits)
    from "10.IH"(2) [OF _ n loc refl r1] True have "prefix (out st) (out st1)" by simp
    moreover from "10.IH"(3) [OF _ n loc refl r1 r2] True have "prefix (out st1) (out st')"
      by simp
    ultimately show ?thesis by (rule prefix_order.trans)
  qed
next
  case (13 n E d t xs fr st)
  then have "prefix (out (if live fr then st\<lparr>out := out st @ [t]\<rparr> else st)) (out st')"
    by simp
  then show ?case
    by (auto split: if_splits dest: append_prefixD)
qed (auto split: list.splits if_splits)

subsection \<open>A result other than the nesting limit stays when the limit is raised\<close>

lemma more_nesting:
  "run n E d xs fr st = r \<Longrightarrow> r \<noteq> Inl Too_Deep \<Longrightarrow> run (Suc n) E d xs fr st = r"
proof (induction n E d xs fr st arbitrary: r rule: run.induct)
  case (10 n E d q p xs fr st)
  show ?case
  proof (cases "live fr")
    case False
    with 10 show ?thesis by simp
  next
    case True
    show ?thesis
    proof (cases n)
      case 0
      with True "10.prems" show ?thesis by simp
    next
      case (Suc k)
      show ?thesis
      proof (cases "locate E d q p")
        case None
        with True Suc "10.prems" show ?thesis by simp
      next
        case (Some lb)
        obtain l b where lb: "lb = (l, b)" by (cases lb)
        note loc = Some [unfolded lb]
        show ?thesis
        proof (cases "run k E (butlast l) b [] st")
          case (Inl e)
          with True Suc loc "10.prems" have "r = Inl e" "e \<noteq> Too_Deep" by auto
          with "10.IH"(2) [OF _ Suc loc refl Inl] True have "run (Suc k) E (butlast l) b [] st = Inl e"
            by simp
          with True Suc loc \<open>r = Inl e\<close> show ?thesis by simp
        next
          case (Inr st1)
          with "10.IH"(2) [OF _ Suc loc refl Inr] True
          have a: "run (Suc k) E (butlast l) b [] st = Inr st1" by simp
          from True Suc loc Inr "10.prems" have "run n E d xs fr st1 = r" by simp
          from "10.IH"(3) [OF _ Suc loc refl Inr this "10.prems"(2)] True
          have "run (Suc n) E d xs fr st1 = r" by simp
          with True Suc loc a show ?thesis by simp
        qed
      qed
    qed
  qed
qed (auto split: list.splits if_splits)

lemma enough_nesting:
  "run n E d xs fr st = r \<Longrightarrow> r \<noteq> Inl Too_Deep \<Longrightarrow> run (n + k) E d xs fr st = r"
  by (induction k) (simp_all add: more_nesting del: run.simps)

subsection \<open>One of the headers included after the other\<close>





subsection \<open>A sequence of includes\<close>

lemma four_includes:
  assumes "run n E d (map (Include True) [p0, p1, p2, p3]) [] st = Inr st'"
  shows "\<exists>s1 s2 s3.
           run n E d [Include True p0] [] st = Inr s1 \<and>
           run n E d [Include True p1] [] s1 = Inr s2 \<and>
           run n E d [Include True p2] [] s2 = Inr s3 \<and>
           run n E d [Include True p3] [] s3 = Inr st'"
proof -
  from assms obtain s1 where a: "run n E d [Include True p0] [] st = Inr s1"
    and b: "run n E d [Include True p1, Include True p2, Include True p3] [] s1 = Inr st'"
    by (simp only: list.map run_cons_include [of n E d True p0 "_ # _"] split: sum.splits) blast
  from b obtain s2 where c: "run n E d [Include True p1] [] s1 = Inr s2"
    and e: "run n E d [Include True p2, Include True p3] [] s2 = Inr st'"
    by (simp only: run_cons_include [of n E d True p1 "_ # _"] split: sum.splits) blast
  from e obtain s3 where f: "run n E d [Include True p2] [] s2 = Inr s3"
    and g: "run n E d [Include True p3] [] s3 = Inr st'"
    by (simp only: run_cons_include [of n E d True p2 "_ # _"] split: sum.splits) blast
  from a c f g show ?thesis by blast
qed

lemma includes_fail:
  "run (Suc n) E d (map (Include True) ps) [] st = Inl e \<Longrightarrow>
   (\<exists>p\<in>set ps. locate E d True p = None \<and> e = Not_Found p) \<or>
   (\<exists>p\<in>set ps. \<exists>l b s. locate E d True p = Some (l, b) \<and> run n E (butlast l) b [] s = Inl e)"
proof (induction ps arbitrary: st)
  case Nil
  then show ?case by simp
next
  case (Cons p ps)
  from Cons.prems have r:
    "(case run (Suc n) E d [Include True p] [] st of
        Inl e \<Rightarrow> Inl e
      | Inr s \<Rightarrow> run (Suc n) E d (map (Include True) ps) [] s) = Inl e"
    by (simp only: list.map run_cons_include [of "Suc n" E d True p "map (Include True) ps"])
  show ?case
  proof (cases "run (Suc n) E d [Include True p] [] st")
    case (Inr s)
    with r have "run (Suc n) E d (map (Include True) ps) [] s = Inl e" by simp
    from Cons.IH [OF this] show ?thesis by auto
  next
    case (Inl e')
    with r have e: "e' = e" by simp
    show ?thesis
    proof (cases "locate E d True p")
      case None
      with Inl e show ?thesis unfolding run_one by auto
    next
      case (Some lb)
      with Inl e show ?thesis unfolding run_one by (cases lb) auto
    qed
  qed
qed


section \<open>Resolving the names the headers include\<close>

text \<open>
  The absolute names of the nested header lead through the directory
  \<^verbatim>\<open>/Users/alexanderi/Downloads/whisperer/whisper.cpp\<close>: without it none of them is found,
  whatever the including directory and the search directories are.
\<close>

lemma abs_steps:
  "map (split_on CHR ''/'' []) abs_paths = map (\<lambda>t. '''' # author_dir @ t) header_steps"
  by code_simp

lemma abs_paths_absolute: "p \<in> set abs_paths \<Longrightarrow> take 1 p = ''/''"
  by (auto simp: abs_paths_def header_tails_def abs_prefix_def)


lemma walk_author_absent:
  "map_of fs author_dir = None \<Longrightarrow> walk fs [] ('''' # author_dir @ rest) = None"
  by (simp add: author_dir_def split: option.split node.split)

lemma steps_of_abs:
  "p \<in> set abs_paths \<Longrightarrow> \<exists>t. split_on CHR ''/'' [] p = '''' # author_dir @ t"
proof -
  assume "p \<in> set abs_paths"
  then have "split_on CHR ''/'' [] p \<in> set (map (split_on CHR ''/'' []) abs_paths)"
    by simp
  then show ?thesis unfolding abs_steps by auto
qed

lemma abs_unresolved:
  assumes "map_of (files E) author_dir = None" and "p \<in> set abs_paths"
  shows "locate E d q p = None"
proof -
  from steps_of_abs [OF assms(2)] obtain t where
    "split_on CHR ''/'' [] p = '''' # author_dir @ t" by blast
  with walk_author_absent [OF assms(1)] abs_paths_absolute [OF assms(2)] show ?thesis
    by (simp add: locate_def open_at_def)
qed

lemma abs_paths_first: "abs_paths = (abs_prefix @ ''ggml/include/ggml.h'') # tl abs_paths"
  by (simp add: abs_paths_def header_tails_def)







section \<open>Replacing a header by an empty file\<close>

text \<open>
  Emptying a file changes neither the paths that exist nor the kind of what is found there,
  only what is read from it. While the guard is defined, and no file removes it, this makes
  no difference to preprocessing when the emptied file is one of the two headers.
\<close>

lemma map_of_emptied:
  "map_of (files (emptied E loc)) x = (if x = loc then Some (File []) else map_of (files E) x)"
  by (simp add: emptied_def)

lemma walk_emptied:
  "map_of (files E) loc = Some (File F) \<Longrightarrow>
   walk (files (emptied E loc)) cur cs = walk (files E) cur cs"
  by (induction "files E" cur cs rule: walk.induct)
     (auto simp: map_of_emptied split: option.splits node.splits)

lemma open_at_emptied:
  "map_of (files E) loc = Some (File F) \<Longrightarrow>
   open_at (files (emptied E loc)) base cs =
     map_option (\<lambda>(l, b). (l, if l = loc then [] else b)) (open_at (files E) base cs)"
  by (auto simp: open_at_def walk_emptied map_of_emptied split: option.splits node.splits)

lemma first_hit_map:
  "first_hit (map (\<lambda>b. map_option f (g b)) xs) = map_option f (first_hit (map g xs))"
proof (induction xs)
  case Nil
  then show ?case by simp
next
  case (Cons x xs)
  then show ?case by (cases "g x") simp_all
qed

lemma locate_emptied:
  assumes "map_of (files E) loc = Some (File F)"
  shows "locate (emptied E loc) d q p =
           map_option (\<lambda>(l, b). (l, if l = loc then [] else b)) (locate E d q p)"
proof -
  have s: "search (emptied E loc) = search E" by (simp add: emptied_def)
  show ?thesis
    unfolding locate_def Let_def s open_at_emptied [OF assms] first_hit_map
    by simp
qed

lemma holds_emptied: "holds (emptied E loc) = holds E"
  by (simp add: emptied_def)

lemma run_emptied:
  assumes E: "no_undef E guard"
    and stored: "map_of (files E) loc = Some (File F)"
    and F: "F = facade_rel \<or> F = facade_abs"
  shows "guard \<in> defined st \<Longrightarrow> Undef guard \<notin> set xs \<Longrightarrow>
         run n (emptied E loc) d xs fr st = run n E d xs fr st"
  using E stored
proof (induction n E d xs fr st rule: run.induct)
  case (10 n E d q p xs fr st)
  note E = \<open>no_undef E guard\<close> and stored = \<open>map_of (files E) loc = Some (File F)\<close>
  show ?case
  proof (cases "live fr")
    case False
    with 10 show ?thesis by simp
  next
    case True
    show ?thesis
    proof (cases n)
      case 0
      with True show ?thesis by simp
    next
      case (Suc k)
      show ?thesis
      proof (cases "locate E d q p")
        case None
        with True Suc show ?thesis by (simp add: locate_emptied [OF stored])
      next
        case (Some lb)
        obtain l b where lb: "lb = (l, b)" by (cases lb)
        note loc = Some [unfolded lb]
        from no_undef_body [OF E loc] have nb: "Undef guard \<notin> set b" .
        have inner: "run k (emptied E loc) (butlast l) (if l = loc then [] else b) [] st =
                     run k E (butlast l) b [] st"
        proof (cases "l = loc")
          case True
          with locate_in [OF loc] stored have "b = F" by simp
          with facade_skipped [OF F "10.prems"(1)] True show ?thesis by simp
        next
          case False
          with "10.IH"(2) [OF _ Suc loc refl "10.prems"(1) nb E stored] \<open>live fr\<close>
          show ?thesis by simp
        qed
        show ?thesis
        proof (cases "run k E (butlast l) b [] st")
          case (Inl e)
          with True Suc loc inner show ?thesis by (simp add: locate_emptied [OF stored])
        next
          case (Inr st1)
          from keep_defined [OF E nb "10.prems"(1) Inr] have g1: "guard \<in> defined st1" .
          from "10.IH"(3) [OF _ Suc loc refl Inr g1 _ E stored] \<open>live fr\<close> "10.prems"(2)
          have "run n (emptied E loc) d xs fr st1 = run n E d xs fr st1" by simp
          with True Suc loc inner Inr show ?thesis by (simp add: locate_emptied [OF stored])
        qed
      qed
    qed
  qed
qed (auto simp: holds_emptied split: list.splits)

section \<open>The example build environments at work\<close>

lemmas machine_defs =
  other_machine_def moved_machine_def bare_machine_def author_machine_def dirs_to_def
  library_def project_def
  author_dir_def header_file_def nested_header_file_def dev_home_def desktop_def

lemmas locate_defs = locate_def open_at_def

lemmas run_defs =
  run_one run_facade_rel run_facade_abs rel_paths_def abs_paths_def header_tails_def
  rel_prefix_def abs_prefix_def live_Nil start_def sample_lines_def

lemma start_fresh: "guard \<notin> defined start"
  by (simp add: start_def)

subsection \<open>Another machine\<close>

lemma other_outer:
  "locate (other_machine g) [''home'', ''dev'', ''Whisperer''] True header_file =
     Some ([''home'', ''dev'', ''Whisperer'', ''Whisperer-Bridging-Header.h''], facade_rel)"
  by (simp add: machine_defs locate_defs)

lemma other_nested:
  "locate (other_machine g) [''home'', ''dev'', ''Whisperer''] True nested_header_file =
     Some ([''home'', ''dev'', ''Whisperer'', ''whisperer'', ''whisperer'',
            ''Whisperer-Bridging-Header.h''], facade_abs)"
  by (simp add: machine_defs locate_defs)

lemma other_headers:
  "locate (other_machine g) [''home'', ''dev'', ''Whisperer''] True
      ''../whisper.cpp/ggml/include/ggml.h'' =
     Some ([''home'', ''dev'', ''whisper.cpp'', ''ggml'', ''include'', ''ggml.h''],
           g @ [Text ''struct ggml_tensor;''])"
  "locate (other_machine g) [''home'', ''dev'', ''Whisperer''] True
      ''../whisper.cpp/ggml/include/ggml-cpu.h'' =
     Some ([''home'', ''dev'', ''whisper.cpp'', ''ggml'', ''include'', ''ggml-cpu.h''],
           [Text ''void ggml_cpu_init(void);''])"
  "locate (other_machine g) [''home'', ''dev'', ''Whisperer''] True
      ''../whisper.cpp/ggml/include/ggml-backend.h'' =
     Some ([''home'', ''dev'', ''whisper.cpp'', ''ggml'', ''include'', ''ggml-backend.h''],
           [Text ''struct ggml_backend;''])"
  "locate (other_machine g) [''home'', ''dev'', ''Whisperer''] True
      ''../whisper.cpp/include/whisper.h'' =
     Some ([''home'', ''dev'', ''whisper.cpp'', ''include'', ''whisper.h''],
           [Text ''struct whisper_context;''])"
  by (simp_all add: machine_defs locate_defs)

lemma other_back:
  "locate (other_machine g) [''home'', ''dev'', ''whisper.cpp'', ''ggml'', ''include''] True
      ''../../../Whisperer/Whisperer-Bridging-Header.h'' =
     Some ([''home'', ''dev'', ''Whisperer'', ''Whisperer-Bridging-Header.h''], facade_rel)"
  by (simp add: machine_defs locate_defs)

lemma other_no_author_dir: "map_of (files (other_machine g)) author_dir = None"
  by (simp add: machine_defs)

lemma other_no_undef: "Undef guard \<notin> set g \<Longrightarrow> no_undef (other_machine g) guard"
  by (auto simp: machine_defs no_undef_def facade_rel_eq facade_abs_eq)

lemma other_cyclic_no_undef:
  "no_undef (other_machine [Include True ''../../../Whisperer/Whisperer-Bridging-Header.h''])
     guard"
  by (rule other_no_undef) simp

lemma other_builds_outer:
  "run (Suc (Suc m)) (other_machine []) [''home'', ''dev'', ''Whisperer'']
     [Include True header_file] [] start =
   Inr \<lparr>defined = {guard}, out = sample_lines\<rparr>"
  by (simp add: run_defs other_outer other_headers)

lemma other_builds_outer_nested:
  "run (Suc (Suc m)) (other_machine []) [''home'', ''dev'', ''Whisperer'']
     [Include True header_file, Include True nested_header_file] [] start =
   Inr \<lparr>defined = {guard}, out = sample_lines\<rparr>"
  by (simp only: run_two other_builds_outer sum.case)
     (simp add: other_nested run_facade_abs live_Nil)

lemma other_builds_cyclic:
  "run (Suc (Suc (Suc m)))
     (other_machine [Include True ''../../../Whisperer/Whisperer-Bridging-Header.h''])
     [''home'', ''dev'', ''Whisperer''] [Include True header_file] [] start =
   Inr \<lparr>defined = {guard}, out = sample_lines\<rparr>"
  by (simp add: run_defs other_outer other_headers other_back)




lemma other_predefined:
  "run (Suc m) (other_machine []) [''home'', ''dev'', ''Whisperer'']
     [Define guard, Include True header_file] [] start =
   Inr \<lparr>defined = {guard}, out = []\<rparr>"
  by (simp add: run_defs other_outer)

lemma other_limit:
  "run (Suc 0) (other_machine []) [''home'', ''dev'', ''Whisperer'']
     [Include True header_file] [] start = Inl Too_Deep"
  by (simp add: run_defs other_outer)

lemma other_recurses:
  "run n (other_machine [Undef guard,
                         Include True ''../../../Whisperer/Whisperer-Bridging-Header.h''])
     [''home'', ''dev'', ''Whisperer''] facade_rel [] start = Inl Too_Deep \<and>
   run (Suc n) (other_machine [Undef guard,
                         Include True ''../../../Whisperer/Whisperer-Bridging-Header.h''])
     [''home'', ''dev'', ''Whisperer''] facade_rel [] start = Inl Too_Deep"
proof (induction n)
  case 0
  show ?case by (simp add: run_defs other_headers)
next
  case (Suc n)
  then have "run n (other_machine [Undef guard,
                         Include True ''../../../Whisperer/Whisperer-Bridging-Header.h''])
     [''home'', ''dev'', ''Whisperer''] facade_rel [] \<lparr>defined = {}, out = []\<rparr> = Inl Too_Deep"
    by (simp add: start_def)
  then have "run (Suc (Suc n)) (other_machine [Undef guard,
                         Include True ''../../../Whisperer/Whisperer-Bridging-Header.h''])
     [''home'', ''dev'', ''Whisperer''] facade_rel [] start = Inl Too_Deep"
    by (simp add: run_facade_rel rel_paths_def header_tails_def rel_prefix_def live_Nil
                  start_def other_headers other_back)
  with Suc show ?case by simp
qed

subsection \<open>The machine with the library at the author's path\<close>








subsection \<open>The machine with the layout of the author\<close>









subsection \<open>The machine without the library\<close>

lemma bare_outer:
  "locate bare_machine [''home'', ''dev'', ''Whisperer''] True header_file =
     Some ([''home'', ''dev'', ''Whisperer'', ''Whisperer-Bridging-Header.h''], facade_rel)"
  by (simp add: machine_defs locate_defs)

lemma bare_no_header:
  "locate bare_machine [''home'', ''dev'', ''Whisperer''] True
      ''../whisper.cpp/ggml/include/ggml.h'' = None"
  by (simp add: machine_defs locate_defs)



lemma bare_fails:
  "run (Suc (Suc m)) bare_machine [''home'', ''dev'', ''Whisperer'']
     [Include True header_file] [] start =
   Inl (Not_Found ''../whisper.cpp/ggml/include/ggml.h'')"
  by (simp add: run_defs bare_outer bare_no_header)

section \<open>Including a header twice\<close>




section \<open>The two files compared\<close>

lemma respelled_lines:
  "map respell_line (lines_of facade_rel_text) = lines_of facade_abs_text @ ['''', '''']"
  by code_simp

text \<open>
  Claim C2. The two files are the same up to the spelling of the include paths. Line by
  line, replacing the prefix \<^verbatim>\<open>../whisper.cpp/\<close> by
  \<^verbatim>\<open>/Users/alexanderi/Downloads/whisperer/whisper.cpp/\<close> in the include lines of the outer
  file, and changing nothing else, gives the lines of the nested file (followed by the two
  empty lines with which only the outer file ends). As directives, both files test and
  define the same guard macro and include the same four header names behind their prefix, in
  the same order, the surrounding directives being the same.
\<close>

theorem files_differ_in_prefix_only:
  "map respell_line (lines_of facade_rel_text) = lines_of facade_abs_text @ ['''', ''''] \<and>
   facade_rel =
     replicate 7 Blank @ [Ifndef guard, Define guard, Blank] @
     map (\<lambda>t. Include True (rel_prefix @ t)) header_tails @ [Blank, Endif] @ [Blank, Blank] \<and>
   facade_abs =
     replicate 7 Blank @ [Ifndef guard, Define guard, Blank] @
     map (\<lambda>t. Include True (abs_prefix @ t)) header_tails @ [Blank, Endif] \<and>
   map base_name header_tails = [''ggml.h'', ''ggml-cpu.h'', ''ggml-backend.h'', ''whisper.h''] \<and>
   rel_prefix = ''../whisper.cpp/'' \<and>
   abs_prefix = ''/Users/alexanderi/Downloads/whisperer/whisper.cpp/'' \<and>
   guard = ''Whisperer_Bridging_Header_h''"
  using respelled_lines base_names
  by (simp add: facade_rel_eq facade_abs_eq rel_paths_def abs_paths_def rel_prefix_def
                abs_prefix_def guard_def)

section \<open>The four headers a header aggregates\<close>

text \<open>
  Claim C3, as amended. Each of the two files includes exactly four external headers and no
  others, in this order: \<^verbatim>\<open>ggml.h\<close>, \<^verbatim>\<open>ggml-cpu.h\<close>, \<^verbatim>\<open>ggml-backend.h\<close>, \<^verbatim>\<open>whisper.h\<close>. When a
  unit includes the file at a point where the guard macro is not yet defined, and the
  inclusion succeeds, then the four headers have been included one after the other in that
  order, from the directory of the file, each starting from the state the previous one
  left; and the lines each one passed on are still there at the end, so that what the four
  headers declare (and what they include in turn) is available to the unit. At a point
  where the guard is already defined the inclusion expands to nothing. (As the claim was
  stated, for every inclusion, it does not hold: with the guard defined nothing is included
  and nothing is made available.)
\<close>

theorem facade_aggregates_four_headers:
  assumes F: "F = facade_rel \<and> ps = rel_paths \<or> F = facade_abs \<and> ps = abs_paths"
    and loc: "locate E d q s = Some (loc, F)"
  shows "includes_of F = map (Pair True) ps \<and>
         map base_name ps = [''ggml.h'', ''ggml-cpu.h'', ''ggml-backend.h'', ''whisper.h''] \<and>
         (guard \<in> defined st \<longrightarrow> run (Suc n) E d [Include q s] [] st = Inr st) \<and>
         (guard \<notin> defined st \<longrightarrow>
          (\<forall>st'. run (Suc n) E d [Include q s] [] st = Inr st' \<longrightarrow>
            (\<exists>s1 s2 s3.
               run n E (butlast loc) [Include True (ps ! 0)] []
                   (st\<lparr>defined := insert guard (defined st)\<rparr>) = Inr s1 \<and>
               run n E (butlast loc) [Include True (ps ! 1)] [] s1 = Inr s2 \<and>
               run n E (butlast loc) [Include True (ps ! 2)] [] s2 = Inr s3 \<and>
               run n E (butlast loc) [Include True (ps ! 3)] [] s3 = Inr st' \<and>
               prefix (out st) (out s1) \<and> prefix (out s1) (out s2) \<and>
               prefix (out s2) (out s3) \<and> prefix (out s3) (out st'))))"
proof (intro conjI impI allI)
  from F show "includes_of F = map (Pair True) ps"
    using includes_of_facades by auto
  from F show "map base_name ps = [''ggml.h'', ''ggml-cpu.h'', ''ggml-backend.h'', ''whisper.h'']"
    using base_names_rel base_names_abs by blast
next
  assume "guard \<in> defined st"
  with F show "run (Suc n) E d [Include q s] [] st = Inr st"
    unfolding run_one loc by (auto simp: facade_skipped)
next
  fix st'
  assume fresh: "guard \<notin> defined st" and ok: "run (Suc n) E d [Include q s] [] st = Inr st'"
  from F have four: "ps = [ps ! 0, ps ! 1, ps ! 2, ps ! 3]"
    using paths_as_four by auto
  from ok have body: "run n E (butlast loc) F [] st = Inr st'"
    unfolding run_one loc by simp
  with F fresh have
    "run n E (butlast loc) (map (Include True) ps) []
       (st\<lparr>defined := insert guard (defined st)\<rparr>) = Inr st'"
    by (auto simp: run_facade_rel run_facade_abs)
  then have
    "run n E (butlast loc) (map (Include True) [ps ! 0, ps ! 1, ps ! 2, ps ! 3]) []
       (st\<lparr>defined := insert guard (defined st)\<rparr>) = Inr st'"
    using four by simp
  from four_includes [OF this] obtain s1 s2 s3 where
    c: "run n E (butlast loc) [Include True (ps ! 0)] []
                (st\<lparr>defined := insert guard (defined st)\<rparr>) = Inr s1"
       "run n E (butlast loc) [Include True (ps ! 1)] [] s1 = Inr s2"
       "run n E (butlast loc) [Include True (ps ! 2)] [] s2 = Inr s3"
       "run n E (butlast loc) [Include True (ps ! 3)] [] s3 = Inr st'"
    by blast
  from c [THEN out_grows] have
    "prefix (out st) (out s1)" "prefix (out s1) (out s2)"
    "prefix (out s2) (out s3)" "prefix (out s3) (out st')"
    by simp_all
  with c show "\<exists>s1 s2 s3.
               run n E (butlast loc) [Include True (ps ! 0)] []
                   (st\<lparr>defined := insert guard (defined st)\<rparr>) = Inr s1 \<and>
               run n E (butlast loc) [Include True (ps ! 1)] [] s1 = Inr s2 \<and>
               run n E (butlast loc) [Include True (ps ! 2)] [] s2 = Inr s3 \<and>
               run n E (butlast loc) [Include True (ps ! 3)] [] s3 = Inr st' \<and>
               prefix (out st) (out s1) \<and> prefix (out s1) (out s2) \<and>
               prefix (out s2) (out s3) \<and> prefix (out s3) (out st')"
    by blast
qed

theorem facade_aggregates_four_headers_witness:
  "includes_of facade_rel = map (Pair True) rel_paths \<and>
   map base_name rel_paths = [''ggml.h'', ''ggml-cpu.h'', ''ggml-backend.h'', ''whisper.h''] \<and>
   (\<exists>s1 s2 s3.
      run (Suc 0) (other_machine [])
          (butlast [''home'', ''dev'', ''Whisperer'', ''Whisperer-Bridging-Header.h''])
          [Include True (rel_paths ! 0)] []
          (start\<lparr>defined := insert guard (defined start)\<rparr>) = Inr s1 \<and>
      run (Suc 0) (other_machine [])
          (butlast [''home'', ''dev'', ''Whisperer'', ''Whisperer-Bridging-Header.h''])
          [Include True (rel_paths ! 1)] [] s1 = Inr s2 \<and>
      run (Suc 0) (other_machine [])
          (butlast [''home'', ''dev'', ''Whisperer'', ''Whisperer-Bridging-Header.h''])
          [Include True (rel_paths ! 2)] [] s2 = Inr s3 \<and>
      run (Suc 0) (other_machine [])
          (butlast [''home'', ''dev'', ''Whisperer'', ''Whisperer-Bridging-Header.h''])
          [Include True (rel_paths ! 3)] [] s3 =
        Inr \<lparr>defined = {guard}, out = sample_lines\<rparr> \<and>
      prefix (out start) (out s1) \<and> prefix (out s1) (out s2) \<and>
      prefix (out s2) (out s3) \<and> prefix (out s3) sample_lines)"
proof -
  note t = facade_aggregates_four_headers
             [OF disjI1 [OF conjI [OF refl refl]] other_outer [of "[]"],
              where st = start and n = "Suc 0"]
  from t have a: "includes_of facade_rel = map (Pair True) rel_paths"
    and b: "map base_name rel_paths = [''ggml.h'', ''ggml-cpu.h'', ''ggml-backend.h'', ''whisper.h'']"
    by blast+
  from t start_fresh other_builds_outer [of 0 ]
  have "\<exists>s1 s2 s3.
      run (Suc 0) (other_machine [])
          (butlast [''home'', ''dev'', ''Whisperer'', ''Whisperer-Bridging-Header.h''])
          [Include True (rel_paths ! 0)] []
          (start\<lparr>defined := insert guard (defined start)\<rparr>) = Inr s1 \<and>
      run (Suc 0) (other_machine [])
          (butlast [''home'', ''dev'', ''Whisperer'', ''Whisperer-Bridging-Header.h''])
          [Include True (rel_paths ! 1)] [] s1 = Inr s2 \<and>
      run (Suc 0) (other_machine [])
          (butlast [''home'', ''dev'', ''Whisperer'', ''Whisperer-Bridging-Header.h''])
          [Include True (rel_paths ! 2)] [] s2 = Inr s3 \<and>
      run (Suc 0) (other_machine [])
          (butlast [''home'', ''dev'', ''Whisperer'', ''Whisperer-Bridging-Header.h''])
          [Include True (rel_paths ! 3)] [] s3 =
        Inr \<lparr>defined = {guard}, out = sample_lines\<rparr> \<and>
      prefix (out start) (out s1) \<and> prefix (out s1) (out s2) \<and>
      prefix (out s2) (out s3) \<and>
      prefix (out s3) (out \<lparr>defined = {guard}, out = sample_lines\<rparr>)"
    by blast
  with a b show ?thesis by (simp del: run.simps)
qed

text \<open>
  The claim as stated fails for the unit that defines the guard macro and then includes the
  outer header, on the machine where the four headers are there and hold their
  declarations: the inclusion succeeds and no line reaches the compiler, while the same
  inclusion without the definition passes the four declarations on.
\<close>

theorem facade_skipped_makes_nothing_available_counterexample:
  "locate (other_machine []) [''home'', ''dev'', ''Whisperer''] True header_file =
     Some ([''home'', ''dev'', ''Whisperer'', ''Whisperer-Bridging-Header.h''], facade_rel) \<and>
   run 2 (other_machine []) [''home'', ''dev'', ''Whisperer'']
     [Define guard, Include True header_file] [] start =
   Inr \<lparr>defined = {guard}, out = []\<rparr> \<and>
   run 2 (other_machine []) [''home'', ''dev'', ''Whisperer'']
     [Include True header_file] [] start =
   Inr \<lparr>defined = {guard}, out = sample_lines\<rparr>"
  using other_outer other_predefined [of 1] other_builds_outer [of 0]
  by (simp add: numeral_2_eq_2 del: run.simps)

section \<open>The nested header away from the author's machine\<close>

text \<open>
  Claim C4, as amended. In an environment whose file system lacks the path
  \<^verbatim>\<open>/Users/alexanderi/Downloads/whisperer/whisper.cpp\<close>, none of the four names of the nested
  header resolves, and a unit that includes the nested header at a point where the guard
  macro is not yet defined fails: with the first name reported as not found, or with the
  nesting limit when fewer than two levels of nesting are left. (As the claim was stated,
  for every unit that includes the nested header, it does not hold: when the guard is
  already defined the body of the header is skipped and nothing is resolved.)
\<close>

theorem nested_facade_needs_author_dir:
  assumes absent: "map_of (files E) author_dir = None"
    and loc: "locate E d q s = Some (loc, facade_abs)"
    and fresh: "guard \<notin> defined st"
  shows "(\<forall>p\<in>set abs_paths. locate E (butlast loc) True p = None) \<and>
         run n E d [Include q s] [] st =
           Inl (if n < 2 then Too_Deep else Not_Found (abs_prefix @ ''ggml/include/ggml.h''))"
proof
  show "\<forall>p\<in>set abs_paths. locate E (butlast loc) True p = None"
    using abs_unresolved [OF absent] by blast
next
  let ?st = "st\<lparr>defined := insert guard (defined st)\<rparr>"
  let ?p = "abs_prefix @ ''ggml/include/ggml.h''"
  have first: "locate E (butlast loc) True ?p = None"
    by (rule abs_unresolved [OF absent]) (simp add: abs_paths_def header_tails_def)
  show "run n E d [Include q s] [] st = Inl (if n < 2 then Too_Deep else Not_Found ?p)"
  proof (cases n)
    case 0
    then show ?thesis by (simp add: live_Nil)
  next
    case nk: (Suc k)
    have body: "run (Suc k) E d [Include q s] [] st =
                run k E (butlast loc) (map (Include True) abs_paths) [] ?st"
      unfolding run_one loc using fresh by (simp add: run_facade_abs)
    show ?thesis
    proof (cases k)
      case k0: 0
      have lim: "run 0 E (butlast loc) (map (Include True) abs_paths) [] ?st = Inl Too_Deep"
        by (rule run_includes_limit) (simp add: abs_paths_def header_tails_def)
      have "run n E d [Include q s] [] st = Inl Too_Deep"
        unfolding nk k0 body [unfolded k0] lim by (rule refl)
      moreover have "n < 2" using nk k0 by simp
      ultimately show ?thesis by (simp only: if_True)
    next
      case kj: (Suc j)
      have "run (Suc j) E (butlast loc) (map (Include True) abs_paths) [] ?st =
            Inl (Not_Found ?p)"
        by (subst abs_paths_first) (simp add: live_Nil first)
      then have "run n E d [Include q s] [] st = Inl (Not_Found ?p)"
        unfolding nk kj body [unfolded kj] .
      moreover have "\<not> n < 2" using nk kj by simp
      ultimately show ?thesis by (simp only: if_False)
    qed
  qed
qed

theorem nested_facade_needs_author_dir_witness:
  "run 2 (other_machine []) [''home'', ''dev'', ''Whisperer'']
     [Include True nested_header_file] [] start =
   Inl (Not_Found ''/Users/alexanderi/Downloads/whisperer/whisper.cpp/ggml/include/ggml.h'')"
  using nested_facade_needs_author_dir [OF other_no_author_dir other_nested start_fresh, of "[]" 2]
  by (simp add: abs_prefix_def)

text \<open>
  The claim as stated fails on a machine without that path, for the unit that includes the
  outer header and then the nested one: the outer header finds the library beside it and
  defines the guard, the nested header is found and skipped, and the unit is preprocessed
  without error.
\<close>

theorem nested_facade_skipped_counterexample:
  "map_of (files (other_machine [])) author_dir = None \<and>
   locate (other_machine []) [''home'', ''dev'', ''Whisperer''] True nested_header_file =
     Some ([''home'', ''dev'', ''Whisperer'', ''whisperer'', ''whisperer'',
            ''Whisperer-Bridging-Header.h''], facade_abs) \<and>
   run 2 (other_machine []) [''home'', ''dev'', ''Whisperer'']
     [Include True header_file, Include True nested_header_file] [] start =
   Inr \<lparr>defined = {guard}, out = sample_lines\<rparr>"
  using other_no_author_dir other_nested other_builds_outer_nested [of 0]
  by (simp add: numeral_2_eq_2)

section \<open>Nothing of their own\<close>

text \<open>
  Claim C5. Both headers are pure pass-throughs. The only directive by which either file
  contributes something of its own is the definition of the guard macro: there is no line
  for the compiler (no declaration, definition, type or function), no other macro, no
  pragma. Accordingly, preprocessing either file is doing nothing when the guard is
  defined, and otherwise exactly preprocessing the definition of the guard followed by the
  four includes: every line passed on comes from the included headers, as they have it.
\<close>

theorem facade_is_pass_through:
  "filter own facade_rel = [Define guard] \<and>
   filter own facade_abs = [Define guard] \<and>
   run n E d facade_rel [] st =
     (if guard \<in> defined st then Inr st
      else run n E d (Define guard # map (Include True) rel_paths) [] st) \<and>
   run n E d facade_abs [] st =
     (if guard \<in> defined st then Inr st
      else run n E d (Define guard # map (Include True) abs_paths) [] st)"
  by (simp add: own_facades run_facade_rel run_facade_abs live_Nil)

section \<open>How an inclusion can fail\<close>

text \<open>
  Claim C6, as amended. The headers hold no line for the compiler, hence no code that could
  run or change the state of a program, and no malformed directive. When a unit that
  includes one of them fails to preprocess, at whatever nesting limit, then the guard was
  not defined at the inclusion (unless the limit was reached by the including line itself)
  and one of these is the case: the nesting limit is reached at the first include line of
  the header; or one of the four names of the header does not resolve, and this is the error
  reported; or the names tried resolve and the error arises while one of the four external
  headers is preprocessed. So the only failures of the header's own directives are build-time
  failures of its include lines: a header that does not resolve, or the limit of include
  nesting. (As the claim was stated, with header resolution as the only failure, it does
  not hold: at the nesting limit the include lines fail although every name resolves.)
\<close>

theorem facade_fails_only_at_its_includes:
  assumes F: "F = facade_rel \<and> ps = rel_paths \<or> F = facade_abs \<and> ps = abs_paths"
    and loc: "locate E d q s = Some (loc, F)"
    and bad: "run n E d [Include q s] [] st = Inl e"
  shows "filter (\<lambda>x. case x of Text t \<Rightarrow> True | Bad t \<Rightarrow> True | _ \<Rightarrow> False) F = [] \<and>
         (n = 0 \<and> e = Too_Deep \<or>
          n = 1 \<and> e = Too_Deep \<and> guard \<notin> defined st \<or>
          (\<exists>k. n = Suc (Suc k) \<and> guard \<notin> defined st \<and>
             ((\<exists>p\<in>set ps. locate E (butlast loc) True p = None \<and> e = Not_Found p) \<or>
              (\<exists>p\<in>set ps. \<exists>l b s'. locate E (butlast loc) True p = Some (l, b) \<and>
                                     run k E (butlast l) b [] s' = Inl e))))"
proof
  from F no_text_facades
  show "filter (\<lambda>x. case x of Text t \<Rightarrow> True | Bad t \<Rightarrow> True | _ \<Rightarrow> False) F = []" by auto
next
  let ?st = "st\<lparr>defined := insert guard (defined st)\<rparr>"
  show "n = 0 \<and> e = Too_Deep \<or>
          n = 1 \<and> e = Too_Deep \<and> guard \<notin> defined st \<or>
          (\<exists>k. n = Suc (Suc k) \<and> guard \<notin> defined st \<and>
             ((\<exists>p\<in>set ps. locate E (butlast loc) True p = None \<and> e = Not_Found p) \<or>
              (\<exists>p\<in>set ps. \<exists>l b s'. locate E (butlast loc) True p = Some (l, b) \<and>
                                     run k E (butlast l) b [] s' = Inl e)))"
  proof (cases n)
    case 0
    with bad show ?thesis by (simp add: live_Nil)
  next
    case nj: (Suc j)
    from bad have body: "run j E (butlast loc) F [] st = Inl e"
      unfolding nj run_one loc by simp
    with F have fresh: "guard \<notin> defined st"
      by (auto simp: run_facade_rel run_facade_abs split: if_splits)
    with body F have incs: "run j E (butlast loc) (map (Include True) ps) [] ?st = Inl e"
      by (auto simp: run_facade_rel run_facade_abs)
    show ?thesis
    proof (cases j)
      case 0
      from F have "ps \<noteq> []" by (auto simp: rel_paths_def abs_paths_def header_tails_def)
      from run_includes_limit [OF this, of E "butlast loc" True ?st] incs
      have "e = Too_Deep" unfolding 0 by simp
      with nj 0 fresh show ?thesis by simp
    next
      case (Suc k)
      from includes_fail [OF incs [unfolded Suc]] nj Suc fresh show ?thesis by simp
    qed
  qed
qed

theorem facade_fails_only_at_its_includes_witness:
  "filter (\<lambda>x. case x of Text t \<Rightarrow> True | Bad t \<Rightarrow> True | _ \<Rightarrow> False) facade_rel = [] \<and>
   ((\<exists>p\<in>set rel_paths.
       locate bare_machine
         (butlast [''home'', ''dev'', ''Whisperer'', ''Whisperer-Bridging-Header.h'']) True p = None \<and>
       Not_Found ''../whisper.cpp/ggml/include/ggml.h'' = Not_Found p) \<or>
    (\<exists>p\<in>set rel_paths. \<exists>l b s'.
       locate bare_machine
         (butlast [''home'', ''dev'', ''Whisperer'', ''Whisperer-Bridging-Header.h'']) True p =
         Some (l, b) \<and>
       run 0 bare_machine (butlast l) b [] s' =
         Inl (Not_Found ''../whisper.cpp/ggml/include/ggml.h'')))"
  using facade_fails_only_at_its_includes
          [OF disjI1 [OF conjI [OF refl refl]] bare_outer bare_fails [of 0]]
  by (simp del: run.simps)

text \<open>
  The claim as stated fails on the machine where all four names of the outer header
  resolve, for a unit that includes the header with one level of nesting left: the first
  include line of the header reaches the nesting limit.
\<close>

theorem facade_at_nesting_limit_counterexample:
  "locate (other_machine []) [''home'', ''dev'', ''Whisperer''] True
      ''../whisper.cpp/ggml/include/ggml.h'' =
     Some ([''home'', ''dev'', ''whisper.cpp'', ''ggml'', ''include'', ''ggml.h''],
           [Text ''struct ggml_tensor;'']) \<and>
   locate (other_machine []) [''home'', ''dev'', ''Whisperer''] True
      ''../whisper.cpp/ggml/include/ggml-cpu.h'' =
     Some ([''home'', ''dev'', ''whisper.cpp'', ''ggml'', ''include'', ''ggml-cpu.h''],
           [Text ''void ggml_cpu_init(void);'']) \<and>
   locate (other_machine []) [''home'', ''dev'', ''Whisperer''] True
      ''../whisper.cpp/ggml/include/ggml-backend.h'' =
     Some ([''home'', ''dev'', ''whisper.cpp'', ''ggml'', ''include'', ''ggml-backend.h''],
           [Text ''struct ggml_backend;'']) \<and>
   locate (other_machine []) [''home'', ''dev'', ''Whisperer''] True
      ''../whisper.cpp/include/whisper.h'' =
     Some ([''home'', ''dev'', ''whisper.cpp'', ''include'', ''whisper.h''],
           [Text ''struct whisper_context;'']) \<and>
   run 1 (other_machine []) [''home'', ''dev'', ''Whisperer'']
     [Include True header_file] [] start = Inl Too_Deep"
  using other_headers [of "[]"] other_limit
  by (simp del: run.simps)

section \<open>The size of the two files\<close>

text \<open>
  Claim C7. The two bridging headers together have fewer than 40 source lines: cut at its
  line feeds, the outer file has 18 lines and the nested file 16, that is 34 in all.
  (Counting line feeds instead, the files have 17 and 15 of them.)
\<close>

theorem line_budget:
  "length (lines_of facade_rel_text) = 18 \<and>
   length (lines_of facade_abs_text) = 16 \<and>
   length (lines_of facade_rel_text) + length (lines_of facade_abs_text) < 40 \<and>
   line_feeds facade_rel_text = 17 \<and>
   line_feeds facade_abs_text = 15"
proof -
  have a: "length (lines_of facade_rel_text) = 18" by code_simp
  have b: "length (lines_of facade_abs_text) = 16" by code_simp
  have c: "line_feeds facade_rel_text = 17" by code_simp
  have d: "line_feeds facade_abs_text = 15" by code_simp
  from a b c d show ?thesis by simp
qed

section \<open>Both headers in one translation unit\<close>




section \<open>A header included again from the headers it includes\<close>

text \<open>
  Claim C9, as amended. In both files the guard macro is defined before any include: no
  include precedes the definition. Hence, in an environment in which no file removes the
  guard macro, an inclusion of the header at a point where the guard is defined expands to
  nothing at any nesting depth, and preprocessing the header (stored at \<open>loc\<close>) is exactly
  preprocessing its four includes in the environment in which the file at \<open>loc\<close> is empty:
  a renewed inclusion of the header from the headers it includes, directly or through
  further files, adds no nesting and no recursion, and the preprocessing of the header ends
  as that of its four headers does when they do not include it. In particular, a nesting
  limit under which the four headers are preprocessed to a result with the header emptied
  gives this result for the header itself, and so does every larger limit. (As the claim
  was stated, for any header that includes the file again, it does not hold: a header that
  removes the guard before it includes the file again makes the inclusion recur until the
  nesting limit is reached.)
\<close>

theorem reinclusion_expands_to_nothing:
  assumes F: "F = facade_rel \<and> ps = rel_paths \<or> F = facade_abs \<and> ps = abs_paths"
    and stored: "map_of (files E) loc = Some (File F)"
    and E: "no_undef E guard"
  shows "includes_of (takeWhile (\<lambda>x. x \<noteq> Define guard) F) = [] \<and> Define guard \<in> set F \<and>
         (guard \<in> defined st \<longrightarrow> run n E d F [] st = Inr st) \<and>
         run n E d F [] st =
           (if guard \<in> defined st then Inr st
            else run n (emptied E loc) d (map (Include True) ps) []
                   (st\<lparr>defined := insert guard (defined st)\<rparr>)) \<and>
         (\<forall>k r. guard \<notin> defined st \<longrightarrow>
                run n (emptied E loc) d (map (Include True) ps) []
                  (st\<lparr>defined := insert guard (defined st)\<rparr>) = r \<longrightarrow>
                r \<noteq> Inl Too_Deep \<longrightarrow>
                run (n + k) E d F [] st = r)"
proof -
  from F have F': "F = facade_rel \<or> F = facade_abs" by blast
  have same: "run n (emptied E loc) d (map (Include True) ps) []
          (st\<lparr>defined := insert guard (defined st)\<rparr>) =
        run n E d (map (Include True) ps) [] (st\<lparr>defined := insert guard (defined st)\<rparr>)"
    by (rule run_emptied [OF E stored F']) auto
  with F have eq: "run n E d F [] st =
           (if guard \<in> defined st then Inr st
            else run n (emptied E loc) d (map (Include True) ps) []
                   (st\<lparr>defined := insert guard (defined st)\<rparr>))"
    by (auto simp: run_facade_rel run_facade_abs)
  have "run (n + k) E d F [] st = r"
    if "guard \<notin> defined st"
      and "run n (emptied E loc) d (map (Include True) ps) []
             (st\<lparr>defined := insert guard (defined st)\<rparr>) = r"
      and "r \<noteq> Inl Too_Deep" for k r
  proof -
    from that(1,2) eq have "run n E d F [] st = r" by simp
    from enough_nesting [OF this that(3)] show ?thesis .
  qed
  with eq F define_before_includes show ?thesis
    by (auto simp del: run.simps)
qed

text \<open>
  On the example machine where \<^verbatim>\<open>ggml.h\<close> includes the outer header again, every nesting
  limit from three on is enough: the unit is preprocessed to its four declarations, and the
  header's includes give the same result when the header file is emptied.
\<close>

theorem reinclusion_expands_to_nothing_witness:
  "\<forall>m. run (Suc (Suc (Suc m)))
          (other_machine [Include True ''../../../Whisperer/Whisperer-Bridging-Header.h''])
          [''home'', ''dev'', ''Whisperer''] [Include True header_file] [] start =
        Inr \<lparr>defined = {guard}, out = sample_lines\<rparr> \<and>
       run (Suc (Suc m))
          (emptied (other_machine [Include True ''../../../Whisperer/Whisperer-Bridging-Header.h''])
                   [''home'', ''dev'', ''Whisperer'', ''Whisperer-Bridging-Header.h''])
          [''home'', ''dev'', ''Whisperer''] (map (Include True) rel_paths) []
          (start\<lparr>defined := insert guard (defined start)\<rparr>) =
        Inr \<lparr>defined = {guard}, out = sample_lines\<rparr>"
proof (intro allI conjI)
  fix m
  let ?E = "other_machine [Include True ''../../../Whisperer/Whisperer-Bridging-Header.h'']"
  show unit: "run (Suc (Suc (Suc m))) ?E [''home'', ''dev'', ''Whisperer'']
                [Include True header_file] [] start =
              Inr \<lparr>defined = {guard}, out = sample_lines\<rparr>"
    by (rule other_builds_cyclic)
  have "run (Suc (Suc m)) ?E [''home'', ''dev'', ''Whisperer''] facade_rel [] start =
        Inr \<lparr>defined = {guard}, out = sample_lines\<rparr>"
    using unit unfolding run_one other_outer by simp
  with reinclusion_expands_to_nothing
         [OF disjI1 [OF conjI [OF refl refl]] locate_in [OF other_outer] other_cyclic_no_undef,
          of start "Suc (Suc m)" "[''home'', ''dev'', ''Whisperer'']"]
       start_fresh
  show "run (Suc (Suc m))
          (emptied ?E [''home'', ''dev'', ''Whisperer'', ''Whisperer-Bridging-Header.h''])
          [''home'', ''dev'', ''Whisperer''] (map (Include True) rel_paths) []
          (start\<lparr>defined := insert guard (defined start)\<rparr>) =
        Inr \<lparr>defined = {guard}, out = sample_lines\<rparr>"
    by simp
qed

text \<open>
  The claim as stated fails on the machine where \<^verbatim>\<open>ggml.h\<close> removes the guard and then
  includes the outer header again: although the guard is defined before the first include,
  the unit that includes the header ends at the nesting limit, whatever the limit is.
\<close>

theorem reinclusion_after_undef_counterexample:
  "\<forall>n. run n (other_machine [Undef guard,
                         Include True ''../../../Whisperer/Whisperer-Bridging-Header.h''])
          [''home'', ''dev'', ''Whisperer''] [Include True header_file] [] start = Inl Too_Deep"
proof
  fix n
  show "run n (other_machine [Undef guard,
                         Include True ''../../../Whisperer/Whisperer-Bridging-Header.h''])
          [''home'', ''dev'', ''Whisperer''] [Include True header_file] [] start = Inl Too_Deep"
  proof (cases n)
    case 0
    then show ?thesis by (simp add: live_Nil)
  next
    case (Suc k)
    from other_recurses [of k] show ?thesis
      unfolding Suc run_one other_outer by simp
  qed
qed

section \<open>The outer header and the directory beside it\<close>




end
